theory Spec2Isabelle
  imports Main "HOL-Library.Word" "HOL-Library.List_Lexorder" "HOL-Library.Multiset"
begin

section \<open>Strings and the directory tree\<close>

text \<open>
  A JavaScript string is a sequence of UTF-16 code units. A literal of the source that is
  plain ASCII is written \<open>ascii ''...''\<close>; the other characters of the source's literals
  are given by their code units.
\<close>

type_synonym jsstring = "16 word list"

definition ascii :: "string \<Rightarrow> jsstring" where
  "ascii s = map of_char s"

text \<open>
  The working directory as \<open>fs.readdirSync\<close> and \<open>fs.statSync\<close> show it: a listing is
  the entries of one directory in the order \<open>readdirSync\<close> returns them, and an
  entry is a regular file (with the text \<open>fs.readFileSync(_, 'utf8')\<close> yields for it)
  or a directory with its own listing. The tree is finite and every \<open>readdirSync\<close> and
  \<open>statSync\<close> succeeds; path handling is that of a POSIX host, where the separator
  is \<open>/\<close> and a name may contain a backslash.
\<close>

datatype node = File jsstring | Directory "(jsstring \<times> node) list"

type_synonym listing = "(jsstring \<times> node) list"

section \<open>generate\_index.js: traversal and filter\<close>

text \<open>\<open>item.startsWith('.')\<close>\<close>

definition startsWith_dot :: "jsstring \<Rightarrow> bool" where
  "startsWith_dot item = (case item of [] \<Rightarrow> False | c # _ \<Rightarrow> c = 0x2E)"

text \<open>
  \<open>path.join(dir, item)\<close> for the arguments \<open>walk\<close> passes: \<open>dir\<close> is \<open>'.'\<close> or a
  normalised relative path, \<open>item\<close> a name out of a listing. Joining gives
  \<open>dir + '/' + item\<close>, and normalisation removes a leading \<open>./\<close>.
\<close>

definition path_join :: "jsstring \<Rightarrow> jsstring \<Rightarrow> jsstring" where
  "path_join dir item = (if dir = ascii ''.'' then item else dir @ ascii ''/'' @ item)"

text \<open>
  \<open>path.relative('.', fullPath)\<close>: \<open>fullPath\<close> is a normalised path below the working
  directory, which is returned as it is.
\<close>

definition path_relative_cwd :: "jsstring \<Rightarrow> jsstring" where
  "path_relative_cwd fullPath = fullPath"

text \<open>\<open>.replace(/\\/g, '/')\<close>: every backslash becomes a slash.\<close>

definition replace_backslashes :: "jsstring \<Rightarrow> jsstring" where
  "replace_backslashes s = map (\<lambda>c. if c = 0x5C then 0x2F else c) s"

text \<open>
  The regular expression \<open>/\.(txt|md|json|csv|log|ini|xml|yaml|yml)$/i\<close>.
  With the flag \<open>i\<close> (and without \<open>u\<close>) two code units match when their
  canonical forms are equal; the canonical form of an ASCII letter is its upper case, any
  other ASCII code unit is its own, and a code unit from 128 on is never given a canonical
  form below 128, so it is left alone here: it matches no character of this pattern.
  \<open>$\<close> without the flag \<open>m\<close> matches at the end of the input only.
\<close>

definition canonicalize :: "16 word \<Rightarrow> 16 word" where
  "canonicalize ch = (if 0x61 \<le> ch \<and> ch \<le> 0x7A then ch - 0x20 else ch)"

definition alternatives :: "jsstring list" where
  "alternatives = [ascii ''txt'', ascii ''md'', ascii ''json'', ascii ''csv'', ascii ''log'',
     ascii ''ini'', ascii ''xml'', ascii ''yaml'', ascii ''yml'']"

definition matches_at_end :: "jsstring \<Rightarrow> jsstring \<Rightarrow> bool" where
  "matches_at_end pat s =
     (length pat \<le> length s \<and>
      map canonicalize (drop (length s - length pat) s) = map canonicalize pat)"

definition regex_test :: "jsstring \<Rightarrow> bool" where
  "regex_test item = list_ex (\<lambda>alt. matches_at_end (0x2E # alt) item) alternatives"

text \<open>
  \<open>walk(dir, fileList)\<close>. The second argument of the model is what is left of
  \<open>fs.readdirSync(dir)\<close> in the \<open>for\<close> loop; the array \<open>fileList\<close>, which the source
  extends in place, is passed along and returned.
\<close>

fun walk :: "jsstring \<Rightarrow> listing \<Rightarrow> jsstring list \<Rightarrow> jsstring list" where
  "walk dir [] fileList = fileList"
| "walk dir ((item, n) # items) fileList =
     (if startsWith_dot item then walk dir items fileList
      else
        let fullPath = path_join dir item;
            relPath = replace_backslashes (path_relative_cwd fullPath)
        in (case n of
              Directory sub \<Rightarrow> walk dir items (walk fullPath sub fileList)
            | File _ \<Rightarrow>
                if regex_test item then walk dir items (fileList @ [relPath])
                else walk dir items fileList))"

text \<open>\<open>const files = walk('.').sort()\<close>. Without a comparison function \<open>sort\<close> orders
  strings by \<open>IsLessThan\<close>: a proper prefix comes first, otherwise the first code units
  that differ decide. The order is total on strings, so every sorting algorithm returns the
  same array; the model inserts one element after the other.\<close>

fun string_less :: "jsstring \<Rightarrow> jsstring \<Rightarrow> bool" where
  "string_less [] [] = False"
| "string_less [] (y # ys) = True"
| "string_less (x # xs) [] = False"
| "string_less (x # xs) (y # ys) = (if x = y then string_less xs ys else x < y)"

fun insert_sorted :: "jsstring \<Rightarrow> jsstring list \<Rightarrow> jsstring list" where
  "insert_sorted x [] = [x]"
| "insert_sorted x (y # ys) =
     (if string_less y x then y # insert_sorted x ys else x # y # ys)"

definition array_sort :: "jsstring list \<Rightarrow> jsstring list" where
  "array_sort xs = foldr insert_sorted xs []"

definition files :: "listing \<Rightarrow> jsstring list" where
  "files root = array_sort (walk (ascii ''.'') root [])"

section \<open>generate\_index.js: rendering\<close>

text \<open>
  \<open>encodeURI\<close> is \<open>Encode(string, unescapedURISet)\<close> of ECMAScript: a code unit of the
  set is copied; any other is read as a code point (a leading surrogate together with the
  trailing one after it; a surrogate without its partner throws \<open>URIError\<close>) whose UTF-8
  octets are written as \<open>%XX\<close> with upper-case hexadecimal digits.
\<close>

datatype error = URIError | EISDIR

definition uriReserved :: jsstring where
  "uriReserved = ascii '';/?:@&=+$,''"

definition uriAlpha :: jsstring where
  "uriAlpha = ascii ''abcdefghijklmnopqrstuvwxyzABCDEFGHIJKLMNOPQRSTUVWXYZ''"

definition decimalDigit :: jsstring where
  "decimalDigit = ascii ''0123456789''"

definition uriMark :: jsstring where
  "uriMark = ascii ''-_.!~*'' @ [0x27] @ ascii ''()''"

definition unescapedURISet :: jsstring where
  "unescapedURISet = uriReserved @ uriAlpha @ decimalDigit @ uriMark @ ascii ''#''"

definition is_leading_surrogate :: "16 word \<Rightarrow> bool" where
  "is_leading_surrogate c = (0xD800 \<le> c \<and> c \<le> 0xDBFF)"

definition is_trailing_surrogate :: "16 word \<Rightarrow> bool" where
  "is_trailing_surrogate c = (0xDC00 \<le> c \<and> c \<le> 0xDFFF)"

definition surrogate_pair_to_code_point :: "16 word \<Rightarrow> 16 word \<Rightarrow> nat" where
  "surrogate_pair_to_code_point lead trail =
     (unat lead - 0xD800) * 0x400 + (unat trail - 0xDC00) + 0x10000"

definition utf8 :: "nat \<Rightarrow> nat list" where
  "utf8 cp =
     (if cp < 0x80 then [cp]
      else if cp < 0x800 then [0xC0 + cp div 0x40, 0x80 + cp mod 0x40]
      else if cp < 0x10000 then
        [0xE0 + cp div 0x1000, 0x80 + cp div 0x40 mod 0x40, 0x80 + cp mod 0x40]
      else
        [0xF0 + cp div 0x40000, 0x80 + cp div 0x1000 mod 0x40, 0x80 + cp div 0x40 mod 0x40,
         0x80 + cp mod 0x40])"

definition hexDigits :: jsstring where
  "hexDigits = ascii ''0123456789ABCDEF''"

text \<open>An octet as \<open>%XX\<close>; an octet is below 256, and the first digit is taken
  modulo 16 only to stay inside \<open>hexDigits\<close> for every argument.\<close>

definition percent :: "nat \<Rightarrow> jsstring" where
  "percent octet = [0x25, hexDigits ! (octet div 16 mod 16), hexDigits ! (octet mod 16)]"

definition percent_octets :: "nat \<Rightarrow> jsstring" where
  "percent_octets cp = concat (map percent (utf8 cp))"

fun encodeURI :: "jsstring \<Rightarrow> error + jsstring" where
  "encodeURI [] = Inr []"
| "encodeURI (c # rest) =
     (if c \<in> set unescapedURISet then
        (case encodeURI rest of Inl e \<Rightarrow> Inl e | Inr r \<Rightarrow> Inr (c # r))
      else if is_trailing_surrogate c then Inl URIError
      else if is_leading_surrogate c then
        (case rest of
           [] \<Rightarrow> Inl URIError
         | d # rest' \<Rightarrow>
             if is_trailing_surrogate d then
               (case encodeURI rest' of
                  Inl e \<Rightarrow> Inl e
                | Inr r \<Rightarrow> Inr (percent_octets (surrogate_pair_to_code_point c d) @ r))
             else Inl URIError)
      else
        (case encodeURI rest of
           Inl e \<Rightarrow> Inl e
         | Inr r \<Rightarrow> Inr (percent_octets (unat c) @ r)))"

text \<open>The template literal \<open>html\<close> starts from (lines 28 to 46).\<close>

definition html_head :: jsstring where
  \<open>html_head =
     ascii ''<!DOCTYPE html>\<newline>'' @
     ascii ''<html lang="zh">\<newline>'' @
     ascii ''<head>\<newline>'' @
     ascii ''  <meta charset="UTF-8" />\<newline>'' @
     ascii ''  <meta name="viewport" content="width=device-width, initial-scale=1.0"/>\<newline>'' @
     ascii ''  <title>'' @ [0x6587, 0x4EF6, 0x4E0B, 0x8F7D, 0x5217, 0x8868] @ ascii ''</title>\<newline>'' @
     ascii ''  <style>\<newline>'' @
     ascii ''    body { font-family: -apple-system, BlinkMacSystemFont, sans-serif; padding: 2rem; max-width: 800px; margin: 0 auto; }\<newline>'' @
     ascii ''    h1 { color: #333; }\<newline>'' @
     ascii ''    ul { list-style: none; padding: 0; }\<newline>'' @
     ascii ''    li { margin: 0.6rem 0; }\<newline>'' @
     ascii ''    a { color: #0066cc; text-decoration: none; font-size: 1.1em; }\<newline>'' @
     ascii ''    a:hover { text-decoration: underline; }\<newline>'' @
     ascii ''  </style>\<newline>'' @
     ascii ''</head>\<newline>'' @
     ascii ''<body>\<newline>'' @
     ascii ''  <h1>'' @ [0xD83D, 0xDCC1] @ ascii '' '' @ [0x6587, 0x4EF6, 0x4E0B, 0x8F7D, 0x5217, 0x8868] @ ascii ''</h1>\<newline>'' @
     ascii ''  <ul>\<newline>''\<close>

text \<open>One turn of \<open>files.forEach\<close> appends this to \<open>html\<close>.\<close>

definition list_item :: "jsstring \<Rightarrow> jsstring \<Rightarrow> jsstring" where
  \<open>list_item encoded file =
     ascii ''    <li><a href="'' @ encoded @ ascii ''">'' @ file @ ascii ''</a></li>\<newline>''\<close>

fun forEach_file :: "jsstring list \<Rightarrow> jsstring \<Rightarrow> error + jsstring" where
  "forEach_file [] html = Inr html"
| "forEach_file (file # rest) html =
     (case encodeURI file of
        Inl e \<Rightarrow> Inl e
      | Inr encoded \<Rightarrow> forEach_file rest (html @ list_item encoded file))"

text \<open>The closing literal (lines 53 to 56); there is no line break after \<open></html>\<close>.\<close>

definition html_foot :: jsstring where
  \<open>html_foot =
     ascii ''  </ul>\<newline>'' @
     ascii ''  <p><small>'' @
     [0x6587, 0x4EF6, 0x5217, 0x8868, 0x7531, 0x81EA, 0x52A8, 0x5316, 0x811A, 0x672C, 0x751F, 0x6210] @
     ascii ''</small></p>\<newline>'' @
     ascii ''</body>\<newline>'' @
     ascii ''</html>''\<close>

definition render :: "jsstring list \<Rightarrow> error + jsstring" where
  "render fs =
     (case forEach_file fs html_head of
        Inl e \<Rightarrow> Inl e
      | Inr html \<Rightarrow> Inr (html @ html_foot))"

section \<open>generate\_index.js: writing\<close>

text \<open>
  What one run leaves behind: the working directory, the calls of \<open>fs.writeFileSync\<close>
  it made (path and data) and the lines of \<open>console.log\<close>. A line of the console is
  kept by its kind and the number it shows:
  \<^item> \<open>NoChange\<close>: index.html unchanged, writing skipped;
  \<^item> \<open>Updated n\<close>: index.html updated, \<open>n\<close> files;
  \<^item> \<open>CurrentCount n\<close>: current number of files \<open>n\<close>;
  \<^item> \<open>Generated n\<close> (the script with the time stamp): index.html generated, \<open>n\<close> files.
\<close>

datatype console_line = NoChange | Updated nat | CurrentCount nat | Generated nat

record outcome =
  tree :: listing
  writes :: "(jsstring \<times> jsstring) list"
  console :: "console_line list"

definition outputPath :: jsstring where
  "outputPath = ascii ''index.html''"

text \<open>
  \<open>fs.writeFileSync(path, data, 'utf8')\<close> for a name in the working directory: the file
  of that name gets the data as its whole content, a directory of that name is an error, and
  a name that is not there yet is entered (at the end of the listing in the model; the
  file system decides where \<open>readdirSync\<close> shows it).
\<close>

fun writeFileSync :: "listing \<Rightarrow> jsstring \<Rightarrow> jsstring \<Rightarrow> error + listing" where
  "writeFileSync [] p data = Inr [(p, File data)]"
| "writeFileSync ((name, n) # rest) p data =
     (if name = p then
        (case n of File _ \<Rightarrow> Inr ((name, File data) # rest) | Directory _ \<Rightarrow> Inl EISDIR)
      else
        (case writeFileSync rest p data of
           Inl e \<Rightarrow> Inl e
         | Inr rest' \<Rightarrow> Inr ((name, n) # rest')))"

text \<open>
  Lines 58 to 67: \<open>shouldWrite\<close> after the comparison with the file that is there, and
  what was logged. \<open>fs.existsSync\<close> is true for a directory too, and
  \<open>fs.readFileSync\<close> then throws.
\<close>

definition check_existing :: "listing \<Rightarrow> jsstring \<Rightarrow> error + (bool \<times> console_line list)" where
  "check_existing root html =
     (case map_of root outputPath of
        None \<Rightarrow> Inr (True, [])
      | Some (Directory _) \<Rightarrow> Inl EISDIR
      | Some (File existing) \<Rightarrow>
          if existing = html then Inr (False, [NoChange]) else Inr (True, []))"

definition generate_index :: "listing \<Rightarrow> error + outcome" where
  "generate_index root =
     (let fs = files root in
      case render fs of
        Inl e \<Rightarrow> Inl e
      | Inr html \<Rightarrow>
          (case check_existing root html of
             Inl e \<Rightarrow> Inl e
           | Inr (shouldWrite, logged) \<Rightarrow>
               if shouldWrite then
                 (case writeFileSync root outputPath html of
                    Inl e \<Rightarrow> Inl e
                  | Inr root' \<Rightarrow>
                      Inr \<lparr>tree = root', writes = [(outputPath, html)],
                           console = logged @ [Updated (length fs)]\<rparr>)
               else
                 Inr \<lparr>tree = root, writes = [],
                      console = logged @ [CurrentCount (length fs)]\<rparr>))"

section \<open>The script with the time stamp (src/unnamed/part\_000)\<close>

text \<open>\<open>fullPath.replace(/^\.\/?/, '')\<close>: a dot at the start goes, with a slash after it.\<close>

definition strip_dot_slash :: "jsstring \<Rightarrow> jsstring" where
  "strip_dot_slash p =
     (case p of
        [] \<Rightarrow> []
      | c # cs \<Rightarrow>
          if c = 0x2E then (case cs of [] \<Rightarrow> [] | d # ds \<Rightarrow> if d = 0x2F then ds else cs)
          else p)"

text \<open>
  \<open>walk(dir)\<close> of this script: no entry is skipped for its name, and the path is pushed
  as \<open>path.join\<close> gave it, but for the replacement above. The third argument is the
  local array \<open>results\<close>.
\<close>

fun walk_ts :: "jsstring \<Rightarrow> listing \<Rightarrow> jsstring list \<Rightarrow> jsstring list" where
  "walk_ts dir [] results = results"
| "walk_ts dir ((file, n) # list) results =
     (let fullPath = path_join dir file
      in (case n of
            Directory sub \<Rightarrow> walk_ts dir list (results @ walk_ts fullPath sub [])
          | File _ \<Rightarrow>
              if regex_test file then walk_ts dir list (results @ [strip_dot_slash fullPath])
              else walk_ts dir list results))"

definition files_ts :: "listing \<Rightarrow> jsstring list" where
  "files_ts root = array_sort (walk_ts (ascii ''.'') root [])"

text \<open>
  The closing literal of this script holds \<open>new Date().toLocaleString('zh-CN')\<close>, the
  time of the run as text; it is the argument \<open>now\<close>.
\<close>

definition html_foot_ts :: "jsstring \<Rightarrow> jsstring" where
  \<open>html_foot_ts now =
     ascii ''  </ul>\<newline>'' @
     ascii ''  <p><small>'' @
     [0x66F4, 0x65B0, 0x65F6, 0x95F4] @ ascii '': '' @ now @
     ascii ''</small></p>\<newline>'' @
     ascii ''</body>\<newline>'' @
     ascii ''</html>''\<close>

definition render_ts :: "jsstring \<Rightarrow> jsstring list \<Rightarrow> error + jsstring" where
  "render_ts now fs =
     (case forEach_file fs html_head of
        Inl e \<Rightarrow> Inl e
      | Inr html \<Rightarrow> Inr (html @ html_foot_ts now))"

definition generate_index_ts :: "jsstring \<Rightarrow> listing \<Rightarrow> error + outcome" where
  "generate_index_ts now root =
     (let fs = files_ts root in
      case render_ts now fs of
        Inl e \<Rightarrow> Inl e
      | Inr html \<Rightarrow>
          (case writeFileSync root outputPath html of
             Inl e \<Rightarrow> Inl e
           | Inr root' \<Rightarrow>
               Inr \<lparr>tree = root', writes = [(outputPath, html)],
                    console = [Generated (length fs)]\<rparr>))"

section \<open>Notions of the specification\<close>

subsection \<open>Files of a tree, extensions, hidden names\<close>

text \<open>
  A file of the tree is given by the names on the way to it, the outermost first.
  \<open>all_files pre items\<close> lists the files below a directory reached by \<open>pre\<close>, in the
  order of the listings.
\<close>

fun all_files :: "jsstring list \<Rightarrow> listing \<Rightarrow> jsstring list list" where
  "all_files pre [] = []"
| "all_files pre ((name, File c) # rest) = (pre @ [name]) # all_files pre rest"
| "all_files pre ((name, Directory sub) # rest) =
     all_files (pre @ [name]) sub @ all_files pre rest"

text \<open>The relative path of a file: its names joined by slashes, a backslash written
  as a slash.\<close>

fun join_segments :: "jsstring list \<Rightarrow> jsstring" where
  "join_segments [] = []"
| "join_segments [s] = s"
| "join_segments (s # t # ss) = s @ ascii ''/'' @ join_segments (t # ss)"

definition relative_path :: "jsstring list \<Rightarrow> jsstring" where
  "relative_path segs = replace_backslashes (join_segments segs)"

text \<open>The extension of a name is what follows its last dot; a name without a dot has
  none. Upper and lower case are those of the ASCII letters.\<close>

definition extension :: "jsstring \<Rightarrow> jsstring option" where
  "extension name =
     (if 0x2E \<in> set name then Some (rev (takeWhile (\<lambda>c. c \<noteq> 0x2E) (rev name))) else None)"

definition ascii_lower :: "16 word \<Rightarrow> 16 word" where
  "ascii_lower c = (if 0x41 \<le> c \<and> c \<le> 0x5A then c + 0x20 else c)"

definition whitelist :: "jsstring list" where
  "whitelist = [ascii ''txt'', ascii ''md'', ascii ''json'', ascii ''csv'', ascii ''log'',
     ascii ''ini'', ascii ''xml'', ascii ''yaml'', ascii ''yml'']"

definition whitelisted :: "jsstring \<Rightarrow> bool" where
  "whitelisted name =
     (case extension name of None \<Rightarrow> False | Some e \<Rightarrow> map ascii_lower e \<in> set whitelist)"

text \<open>No name on the way to the file, its own included, starts with a dot.\<close>

definition visible :: "jsstring list \<Rightarrow> bool" where
  "visible segs = list_all (\<lambda>s. \<not> startsWith_dot s) segs"

definition included :: "jsstring list \<Rightarrow> bool" where
  "included segs = (visible segs \<and> whitelisted (last segs))"


text \<open>The tree without its hidden entries.\<close>

fun prune :: "listing \<Rightarrow> listing" where
  "prune [] = []"
| "prune ((name, File c) # rest) =
     (if startsWith_dot name then prune rest else (name, File c) # prune rest)"
| "prune ((name, Directory sub) # rest) =
     (if startsWith_dot name then prune rest else (name, Directory (prune sub)) # prune rest)"

text \<open>The directory \<open>walk\<close> is in when it has come down by the names \<open>pre\<close>.\<close>

definition dir_of :: "jsstring list \<Rightarrow> jsstring" where
  "dir_of pre = (if pre = [] then ascii ''.'' else join_segments pre)"

definition lower_letters :: "jsstring \<Rightarrow> bool" where
  "lower_letters s = list_all (\<lambda>p. 0x61 \<le> p \<and> p \<le> 0x7A) s"

subsection \<open>Code points\<close>

text \<open>
  The code points of a string: a leading surrogate with the trailing one after it is one
  code point, any other code unit is its own. A string is well formed when none of its
  surrogates is without its partner; the names \<open>readdirSync\<close> returns are, as they are
  decoded from the bytes of the file system.
\<close>

fun code_points :: "jsstring \<Rightarrow> nat list" where
  "code_points [] = []"
| "code_points [c] = [unat c]"
| "code_points (c # d # rest) =
     (if is_leading_surrogate c \<and> is_trailing_surrogate d
      then surrogate_pair_to_code_point c d # code_points rest
      else unat c # code_points (d # rest))"

fun well_formed :: "jsstring \<Rightarrow> bool" where
  "well_formed [] = True"
| "well_formed [c] = (\<not> is_leading_surrogate c \<and> \<not> is_trailing_surrogate c)"
| "well_formed (c # d # rest) =
     (if is_leading_surrogate c then is_trailing_surrogate d \<and> well_formed rest
      else \<not> is_trailing_surrogate c \<and> well_formed (d # rest))"

definition no_surrogates :: "jsstring \<Rightarrow> bool" where
  "no_surrogates s = list_all (\<lambda>c. \<not> is_leading_surrogate c \<and> \<not> is_trailing_surrogate c) s"

text \<open>Two strings in the order of their code points, the shorter first when it starts
  the longer.\<close>

definition code_point_le :: "jsstring \<Rightarrow> jsstring \<Rightarrow> bool" where
  "code_point_le a b = (code_points a \<le> code_points b)"

text \<open>
  The percent-encoded form of a string, as \<open>encodeURI\<close> fixes it: a character of
  \<open>unescapedURISet\<close> (letters, digits, the marks \<open>-_.!~*'()\<close>, the reserved characters
  \<open>;/?:@&=+$,\<close> and \<open>#\<close>) stands for itself, any other code point is replaced by
  \<open>%XX\<close> for each octet of its UTF-8 form.
\<close>

definition escape_code_point :: "nat \<Rightarrow> jsstring" where
  "escape_code_point cp =
     (if cp < 0x80 \<and> of_nat cp \<in> set unescapedURISet then [of_nat cp] else percent_octets cp)"

definition percent_encoded :: "jsstring \<Rightarrow> jsstring" where
  "percent_encoded s = concat (map escape_code_point (code_points s))"

subsection \<open>Trees that differ in the order of their listings only\<close>

text \<open>
  Two trees hold the same entries when every listing of the one is a rearrangement of the
  listing of the other, directory by directory. What the files contain is left open.
\<close>

inductive same_node :: "node \<Rightarrow> node \<Rightarrow> bool"
  and same_listing :: "listing \<Rightarrow> listing \<Rightarrow> bool" where
  same_File: "same_node (File c) (File c')"
| same_Directory: "same_listing xs ys \<Longrightarrow> same_node (Directory xs) (Directory ys)"
| same_Nil: "same_listing [] []"
| same_Cons: "same_node a b \<Longrightarrow> same_listing xs (ys1 @ ys2) \<Longrightarrow>
     same_listing ((name, a) # xs) (ys1 @ (name, b) # ys2)"

code_pred same_node .

subsection \<open>Plain names\<close>

text \<open>
  A name is plain when it does not start with a dot and holds no backslash; a tree is plain
  when all its names are. For the two scripts to collect the same paths less is asked: that
  every file with a listed extension has plain names on its way, its own included.
\<close>

definition plain_name :: "jsstring \<Rightarrow> bool" where
  "plain_name name = (\<not> startsWith_dot name \<and> 0x5C \<notin> set name)"

fun plain :: "listing \<Rightarrow> bool" where
  "plain [] = True"
| "plain ((name, File c) # rest) = (plain_name name \<and> plain rest)"
| "plain ((name, Directory sub) # rest) = (plain_name name \<and> plain sub \<and> plain rest)"

definition listed_plain :: "jsstring list \<Rightarrow> bool" where
  "listed_plain segs = (\<not> whitelisted (last segs) \<or> list_all plain_name segs)"

definition listed_files_plain :: "listing \<Rightarrow> bool" where
  "listed_files_plain root = list_all listed_plain (all_files [] root)"

subsection \<open>List items and an example\<close>

text \<open>The list item of a path: its percent-encoded form in \<open>href\<close>, the path as
  it is as the text of the link.\<close>

definition item_of :: "jsstring \<Rightarrow> jsstring" where
  "item_of file = list_item (percent_encoded file) file"

definition example_tree :: listing where
  "example_tree =
     [(ascii ''b.txt'', File []), (ascii ''data.json'', File []), (ascii ''a.md'', File []),
      (ascii ''README.md'', File []), (ascii ''a'', Directory [(ascii ''a.txt'', File [])])]"

text \<open>The document for a working directory whose only listed file is \<open>a.md\<close>.\<close>

definition example_document :: jsstring where
  \<open>example_document =
     html_head @ ascii ''    <li><a href="a.md">a.md</a></li>\<newline>'' @ html_foot\<close>

text \<open>
  A working directory with the hidden file \<open>a/.git/config.txt\<close> and, beside the
  directory \<open>a\<close>, a file whose name is \<open>a\.git\config.txt\<close> with backslashes.
\<close>

definition aliased_example :: listing where
  "aliased_example =
     [(ascii ''a'', Directory [(ascii ''.git'', Directory [(ascii ''config.txt'', File [])])]),
      (ascii ''a'' @ [0x5C] @ ascii ''.git'' @ [0x5C] @ ascii ''config.txt'', File [])]"

text \<open>A working directory with hidden entries none of which has a listed extension.\<close>

definition git_example :: listing where
  "git_example =
     [(ascii ''.git'', Directory [(ascii ''config'', File [])]),
      (ascii ''.gitignore'', File []),
      (ascii ''README.md'', File []),
      (ascii ''docs'', Directory [(ascii ''a.txt'', File [])])]"

text \<open>What \<open>walk\<close> collects below a directory, as a multiset.\<close>

definition collected :: "jsstring \<Rightarrow> listing \<Rightarrow> jsstring multiset" where
  "collected dir items = mset (walk dir items [])"

subsection \<open>Anchors of a document\<close>





subsection \<open>The percent-encoded form with the reserved characters encoded\<close>

text \<open>
  The form of a path in which only letters, digits, the marks \<open>-_.!~*'()\<close> and the slash
  between the names stand for themselves, and every other code point, the reserved
  characters \<open>; ? : @ & = + $ , #\<close> among them, is replaced by the \<open>%XX\<close> of its UTF-8
  octets.
\<close>

definition kept_as_path :: jsstring where
  "kept_as_path = uriAlpha @ decimalDigit @ uriMark @ ascii ''/''"

definition href_reserved_encoded :: "jsstring \<Rightarrow> jsstring" where
  "href_reserved_encoded s =
     concat (map (\<lambda>cp. if cp < 0x80 \<and> of_nat cp \<in> set kept_as_path then [of_nat cp]
                        else percent_octets cp) (code_points s))"

section \<open>The filter\<close>

lemma canon_eq_iff:
  assumes "0x61 \<le> p" "p \<le> 0x7A"
  shows "canonicalize c = canonicalize p \<longleftrightarrow> ascii_lower c = p"
  using assms unfolding ascii_lower_def canonicalize_def
  by (simp split: if_splits; unat_arith)


lemma canon_dot: "canonicalize c = 0x2E \<longleftrightarrow> c = 0x2E"
  unfolding canonicalize_def by (simp split: if_splits; unat_arith)

lemma lower_dot: "ascii_lower c = 0x2E \<longleftrightarrow> c = 0x2E"
  unfolding ascii_lower_def by (simp split: if_splits; unat_arith)

lemma map_canon_eq_iff:
  "lower_letters alt \<Longrightarrow> map canonicalize e = map canonicalize alt \<longleftrightarrow> map ascii_lower e = alt"
proof (induction alt arbitrary: e)
  case Nil
  then show ?case by simp
next
  case (Cons p ps)
  then have p: "0x61 \<le> p" "p \<le> 0x7A" and ps: "lower_letters ps"
    by (simp_all add: lower_letters_def)
  show ?case
  proof (cases e)
    case Nil
    then show ?thesis by simp
  next
    case (Cons c cs)
    then show ?thesis
      using canon_eq_iff [OF p, of c] Cons.IH [OF ps, of cs] by simp
  qed
qed

lemma matches_at_end_iff:
  "matches_at_end pat s \<longleftrightarrow> (\<exists>pre suf. s = pre @ suf \<and> map canonicalize suf = map canonicalize pat)"
proof
  assume m: "matches_at_end pat s"
  let ?k = "length s - length pat"
  have "s = take ?k s @ drop ?k s" by simp
  moreover have "map canonicalize (drop ?k s) = map canonicalize pat"
    using m by (simp add: matches_at_end_def)
  ultimately show "\<exists>pre suf. s = pre @ suf \<and> map canonicalize suf = map canonicalize pat"
    by blast
next
  assume "\<exists>pre suf. s = pre @ suf \<and> map canonicalize suf = map canonicalize pat"
  then obtain pre suf where s: "s = pre @ suf" and e: "map canonicalize suf = map canonicalize pat"
    by blast
  from e have "length suf = length pat" by (rule map_eq_imp_length_eq)
  then show "matches_at_end pat s"
    using s e by (simp add: matches_at_end_def)
qed

lemma lower_no_dot: "lower_letters alt \<Longrightarrow> map ascii_lower e = alt \<Longrightarrow> 0x2E \<notin> set e"
proof (induction e arbitrary: alt)
  case Nil
  then show ?case by simp
next
  case (Cons c cs)
  then obtain p ps where alt: "alt = p # ps" by auto
  with Cons.prems have p: "0x61 \<le> p" "p \<le> 0x7A" "ascii_lower c = p" and ps: "lower_letters ps" "map ascii_lower cs = ps"
    by (simp_all add: lower_letters_def)
  have "c \<noteq> 0x2E"
  proof
    assume "c = 0x2E"
    then have "ascii_lower c = 0x2E" by (simp add: lower_dot)
    with p show False by simp
  qed
  with Cons.IH [OF ps] show ?case by simp
qed

lemma extension_append: "0x2E \<notin> set e \<Longrightarrow> extension (pre @ 0x2E # e) = Some e"
proof -
  assume e: "0x2E \<notin> set e"
  then have "takeWhile (\<lambda>c. c \<noteq> 0x2E) (rev e) = rev e"
    by (auto simp: takeWhile_eq_all_conv)
  then have "takeWhile (\<lambda>c. c \<noteq> 0x2E) (rev e @ 0x2E # rev pre) = rev e"
    by (simp add: takeWhile_tail)
  then show ?thesis by (simp add: extension_def)
qed

lemma extension_SomeD:
  assumes "extension name = Some e"
  shows "\<exists>pre. name = pre @ 0x2E # e \<and> 0x2E \<notin> set e"
proof -
  let ?P = "\<lambda>c::16 word. c \<noteq> 0x2E"
  from assms have d: "0x2E \<in> set name" and e: "e = rev (takeWhile ?P (rev name))"
    by (simp_all add: extension_def split: if_splits)
  from d have "dropWhile ?P (rev name) \<noteq> []" by (simp add: dropWhile_eq_Nil_conv)
  then obtain x xs where dw: "dropWhile ?P (rev name) = x # xs" by (cases "dropWhile ?P (rev name)") auto
  then have "\<not> ?P x" using hd_dropWhile [of ?P "rev name"] by fastforce
  then have x: "x = 0x2E" by simp
  have "rev name = takeWhile ?P (rev name) @ dropWhile ?P (rev name)" by simp
  then have "rev name = rev e @ 0x2E # xs" using dw x e by simp
  then have "rev (rev name) = rev (rev e @ 0x2E # xs)" by simp
  then have "name = rev xs @ 0x2E # e" by simp
  moreover have "0x2E \<notin> set e" using e set_takeWhileD [of "0x2E" ?P "rev name"] by auto
  ultimately show ?thesis by blast
qed

lemma alternatives_lower: "alt \<in> set alternatives \<Longrightarrow> lower_letters alt"
  by (auto simp: alternatives_def lower_letters_def ascii_def)

lemma whitelist_alternatives: "whitelist = alternatives"
  by (simp add: whitelist_def alternatives_def)


lemma regex_test_iff_whitelisted: "regex_test name \<longleftrightarrow> whitelisted name"
proof
  assume "regex_test name"
  then obtain alt where alt: "alt \<in> set alternatives" and m: "matches_at_end (0x2E # alt) name"
    by (auto simp: regex_test_def list_ex_iff)
  from m obtain pre suf where n: "name = pre @ suf"
      and c: "map canonicalize suf = map canonicalize (0x2E # alt)"
    by (auto simp: matches_at_end_iff)
  from c obtain d e where suf: "suf = d # e" by (cases suf) auto
  with c have d: "canonicalize d = canonicalize 0x2E" and e: "map canonicalize e = map canonicalize alt"
    by simp_all
  have "canonicalize (0x2E :: 16 word) = 0x2E" by (simp add: canonicalize_def)
  with d have d': "d = 0x2E" by (simp add: canon_dot)
  have low: "lower_letters alt" using alt by (rule alternatives_lower)
  from e have le: "map ascii_lower e = alt" by (simp add: map_canon_eq_iff [OF low])
  have "0x2E \<notin> set e" using low le by (rule lower_no_dot)
  then have "extension name = Some e" unfolding n suf d' by (rule extension_append)
  then show "whitelisted name"
    using le alt by (simp add: whitelisted_def whitelist_alternatives)
next
  assume "whitelisted name"
  then obtain e where x: "extension name = Some e" and w: "map ascii_lower e \<in> set alternatives"
    by (auto simp: whitelisted_def whitelist_alternatives split: option.splits)
  from x obtain pre where n: "name = pre @ 0x2E # e" using extension_SomeD by blast
  have low: "lower_letters (map ascii_lower e)" using w by (rule alternatives_lower)
  have "map canonicalize e = map canonicalize (map ascii_lower e)"
    using map_canon_eq_iff [OF low, of e] by blast
  then have "map canonicalize (0x2E # e) = map canonicalize (0x2E # map ascii_lower e)"
    by simp
  with n have "\<exists>pre suf. name = pre @ suf \<and>
      map canonicalize suf = map canonicalize (0x2E # map ascii_lower e)"
    by blast
  then have "matches_at_end (0x2E # map ascii_lower e) name"
    by (simp only: matches_at_end_iff)
  with w show "regex_test name"
    by (auto simp: regex_test_def list_ex_iff)
qed

lemma join_segments_snoc:
  "pre \<noteq> [] \<Longrightarrow> join_segments (pre @ [name]) = join_segments pre @ ascii ''/'' @ name"
  by (induction pre rule: join_segments.induct) simp_all

lemma join_segments_not_dot:
  "pre \<noteq> [] \<Longrightarrow> \<not> startsWith_dot (hd pre) \<Longrightarrow> join_segments pre \<noteq> ascii ''.''"
  by (cases pre rule: join_segments.cases)
     (auto simp: startsWith_dot_def ascii_def split: list.splits)

lemma path_join_dir_of:
  assumes "visible pre"
  shows "path_join (dir_of pre) name = dir_of (pre @ [name])"
proof (cases "pre = []")
  case True
  then show ?thesis by (simp add: dir_of_def path_join_def)
next
  case False
  with assms have "\<not> startsWith_dot (hd pre)"
    by (cases pre) (simp_all add: visible_def)
  with False have "join_segments pre \<noteq> ascii ''.''"
    by (rule join_segments_not_dot)
  with False show ?thesis
    by (simp add: dir_of_def path_join_def join_segments_snoc)
qed

lemma all_files_prefix:
  "segs \<in> set (all_files pre items) \<Longrightarrow> \<exists>rest. segs = pre @ rest"
  by (induction pre items rule: all_files.induct) auto

lemma all_files_hidden:
  assumes "\<not> visible pre"
  shows "filter included (all_files pre items) = []"
proof -
  have "\<not> included segs" if "segs \<in> set (all_files pre items)" for segs
  proof -
    from that obtain rest where "segs = pre @ rest" using all_files_prefix by blast
    with assms show ?thesis by (simp add: included_def visible_def)
  qed
  then show ?thesis by (simp add: filter_empty_conv)
qed

lemma walk_characterised:
  "visible pre \<Longrightarrow>
   walk (dir_of pre) items acc = acc @ map relative_path (filter included (all_files pre items))"
proof (induction pre items arbitrary: acc rule: all_files.induct)
  case (1 pre)
  then show ?case by simp
next
  case (2 pre name c rest)
  have v: "visible (pre @ [name]) \<longleftrightarrow> \<not> startsWith_dot name"
    using "2.prems" by (simp add: visible_def)
  have d: "dir_of (pre @ [name]) = join_segments (pre @ [name])"
    by (simp add: dir_of_def)
  show ?case
    using "2.IH" [OF "2.prems"] "2.prems" v d
    by (simp add: included_def path_join_dir_of path_relative_cwd_def relative_path_def
          regex_test_iff_whitelisted)
next
  case (3 pre name sub rest)
  show ?case
  proof (cases "startsWith_dot name")
    case True
    then have "\<not> visible (pre @ [name])" by (simp add: visible_def)
    then have "filter included (all_files (pre @ [name]) sub) = []"
      by (rule all_files_hidden)
    with True "3.IH"(2) [OF "3.prems"] show ?thesis by simp
  next
    case False
    with "3.prems" have v: "visible (pre @ [name])" by (simp add: visible_def)
    show ?thesis
      using False "3.IH"(1) [OF v] "3.IH"(2) [OF "3.prems"] "3.prems"
      by (simp add: path_join_dir_of)
  qed
qed

lemmas eval_defs = ascii_def startsWith_dot_def path_join_def path_relative_cwd_def
  replace_backslashes_def regex_test_def matches_at_end_def alternatives_def canonicalize_def




section \<open>The order of the paths\<close>

lemma string_less_iff: "string_less a b \<longleftrightarrow> a < b"
  by (induction a b rule: string_less.induct) auto

lemma insert_sorted_insort: "insert_sorted x ys = insort x ys"
  by (induction ys) (auto simp: string_less_iff)

lemma array_sort_sort: "array_sort xs = sort xs"
proof -
  have "insert_sorted = insort" by (intro ext) (rule insert_sorted_insort)
  then show ?thesis by (simp add: array_sort_def sort_key_def)
qed

lemma array_sort_mset_cong: "mset xs = mset ys \<Longrightarrow> array_sort xs = array_sort ys"
  unfolding array_sort_sort by (rule properties_for_sort) simp_all

lemma sorted_array_sort: "sorted_wrt (\<lambda>a b. \<not> string_less b a) (array_sort xs)"
proof -
  have "(\<lambda>a b. \<not> string_less b a) = (\<le>)"
    by (intro ext) (auto simp: string_less_iff)
  then show ?thesis by (simp add: array_sort_sort)
qed

lemma code_points_no_surrogates: "no_surrogates s \<Longrightarrow> code_points s = map unat s"
  by (induction s rule: code_points.induct) (simp_all add: no_surrogates_def)

lemma map_unat_le: "map unat a \<le> map unat b \<longleftrightarrow> a \<le> b" for a b :: "16 word list"
proof (induction a arbitrary: b)
  case Nil
  then show ?case by simp
next
  case (Cons x xs)
  then show ?case
    by (cases b) (auto simp: word_less_nat_alt word_unat_eq_iff)
qed

lemma code_point_le_no_surrogates:
  "no_surrogates a \<Longrightarrow> no_surrogates b \<Longrightarrow> code_point_le a b \<longleftrightarrow> \<not> string_less b a"
  by (auto simp: code_point_le_def code_points_no_surrogates map_unat_le string_less_iff)

text \<open>
  C3, as the code has it: the paths handed to the renderer are in ascending order of their
  UTF-16 code units, a proper prefix first; this is the order of the code points whenever
  no path holds a surrogate, that is, a character outside the Basic Multilingual Plane.
\<close>

theorem files_sorted:
  "sorted_wrt (\<lambda>a b. \<not> string_less b a) (files root) \<and>
   (list_all no_surrogates (files root) \<longrightarrow> sorted_wrt code_point_le (files root))"
proof
  show s: "sorted_wrt (\<lambda>a b. \<not> string_less b a) (files root)"
    unfolding files_def by (rule sorted_array_sort)
  show "list_all no_surrogates (files root) \<longrightarrow> sorted_wrt code_point_le (files root)"
  proof
    assume "list_all no_surrogates (files root)"
    then have "\<And>a b. a \<in> set (files root) \<Longrightarrow> b \<in> set (files root) \<Longrightarrow>
        \<not> string_less b a \<Longrightarrow> code_point_le a b"
      by (simp add: list_all_iff code_point_le_no_surrogates)
    with s show "sorted_wrt code_point_le (files root)"
      by (rule sorted_wrt_mono_rel [rotated])
  qed
qed


lemmas sort_defs = files_def array_sort_def

lemma files_example:
  "files example_tree =
     [ascii ''README.md'', ascii ''a.md'', ascii ''a/a.txt'', ascii ''b.txt'', ascii ''data.json'']"
  by (simp add: example_tree_def sort_defs eval_defs)

text \<open>The paths \<open>b.txt\<close>, \<open>a.md\<close>, \<open>a/a.txt\<close> of C3 come out as \<open>a.md\<close>, \<open>a/a.txt\<close>,
  \<open>b.txt\<close>, and \<open>README.md\<close> before \<open>data.json\<close>.\<close>

theorem files_sorted_witness:
  "files example_tree =
     [ascii ''README.md'', ascii ''a.md'', ascii ''a/a.txt'', ascii ''b.txt'', ascii ''data.json'']
   \<and> list_all no_surrogates (files example_tree)
   \<and> sorted_wrt (\<lambda>a b. \<not> string_less b a) (files example_tree)
   \<and> sorted_wrt code_point_le (files example_tree)"
proof -
  have n: "list_all no_surrogates (files example_tree)"
    unfolding files_example
    by (simp add: no_surrogates_def ascii_def is_leading_surrogate_def is_trailing_surrogate_def)
  with files_sorted [of example_tree] files_example show ?thesis by simp
qed

text \<open>
  C3 as it is written, by code points, fails where a character outside the Basic
  Multilingual Plane meets one from U+E000 on: the name starting with U+1F4C1 (the
  surrogates D83D DCC1) is put before the name starting with U+FF08.
\<close>

theorem files_sorted_counterexample:
  "files [(0xFF08 # ascii ''.txt'', File []), ([0xD83D, 0xDCC1] @ ascii ''.txt'', File [])]
     = [[0xD83D, 0xDCC1] @ ascii ''.txt'', 0xFF08 # ascii ''.txt'']
   \<and> code_points ([0xD83D, 0xDCC1] @ ascii ''.txt'') = 0x1F4C1 # map unat (ascii ''.txt'')
   \<and> code_points (0xFF08 # ascii ''.txt'') = 0xFF08 # map unat (ascii ''.txt'')
   \<and> \<not> sorted_wrt code_point_le
         (files [(0xFF08 # ascii ''.txt'', File []), ([0xD83D, 0xDCC1] @ ascii ''.txt'', File [])])"
  by (simp add: sort_defs eval_defs code_point_le_def is_leading_surrogate_def
        is_trailing_surrogate_def surrogate_pair_to_code_point_def)

section \<open>The renderer\<close>

text \<open>The octets of a code point are below 256, so \<open>percent\<close> reads \<open>hexDigits\<close>
  inside its sixteen digits.\<close>

lemma mod_64_small: "(n::nat) mod 0x40 < 0x80"
  using mod_less_divisor [of "0x40" n] by linarith

lemma utf8_octets: "cp < 0x110000 \<Longrightarrow> list_all (\<lambda>octet. octet < 0x100) (utf8 cp)"
  unfolding utf8_def
  by (simp add: mod_64_small less_mult_imp_div_less)

lemma pair_below: "is_leading_surrogate c \<Longrightarrow> is_trailing_surrogate d \<Longrightarrow>
  surrogate_pair_to_code_point c d < 0x110000"
  unfolding is_leading_surrogate_def is_trailing_surrogate_def surrogate_pair_to_code_point_def
  by (simp add: word_le_nat_alt) linarith

lemmas uri_defs = unescapedURISet_def uriReserved_def uriAlpha_def decimalDigit_def uriMark_def

lemma unescaped_all_ascii: "list_all (\<lambda>c. c < 0x80) unescapedURISet"
  by (simp add: uri_defs ascii_def)

lemma unescaped_ascii: "c \<in> set unescapedURISet \<Longrightarrow> c < 0x80"
  using unescaped_all_ascii by (simp add: list_all_iff)

lemma unescaped_not_surrogate:
  assumes "c \<in> set unescapedURISet"
  shows "\<not> is_leading_surrogate c" and "\<not> is_trailing_surrogate c"
  using unescaped_ascii [OF assms]
  by (simp_all add: is_leading_surrogate_def is_trailing_surrogate_def; unat_arith)+

lemma escape_unescaped:
  assumes "c \<in> set unescapedURISet"
  shows "escape_code_point (unat c) = [c]"
proof -
  have "unat c < 0x80" using unescaped_ascii [OF assms] by (simp add: word_less_nat_alt)
  with assms show ?thesis by (simp add: escape_code_point_def)
qed

lemma escape_other:
  assumes "c \<notin> set unescapedURISet"
  shows "escape_code_point (unat c) = percent_octets (unat c)"
  using assms by (simp add: escape_code_point_def)

lemma escape_pair:
  "escape_code_point (surrogate_pair_to_code_point c d)
     = percent_octets (surrogate_pair_to_code_point c d)"
  by (simp add: escape_code_point_def surrogate_pair_to_code_point_def)

lemma lead_not_trail: "is_leading_surrogate c \<Longrightarrow> \<not> is_trailing_surrogate c"
  by (simp add: is_leading_surrogate_def is_trailing_surrogate_def; unat_arith)

lemma encodeURI_well_formed: "well_formed s \<Longrightarrow> encodeURI s = Inr (percent_encoded s)"
proof (induction s rule: well_formed.induct)
  case 1
  then show ?case by (simp add: percent_encoded_def)
next
  case (2 c)
  then show ?case
    by (auto simp: percent_encoded_def escape_unescaped escape_other)
next
  case (3 c d rest)
  show ?case
  proof (cases "c \<in> set unescapedURISet")
    case True
    with 3 unescaped_not_surrogate [OF True] show ?thesis
      by (simp add: percent_encoded_def escape_unescaped)
  next
    case out: False
    show ?thesis
    proof (cases "is_leading_surrogate c")
      case True
      with 3 out lead_not_trail [OF True] show ?thesis
        by (simp add: percent_encoded_def escape_pair)
    next
      case False
      with 3 out show ?thesis
        by (simp add: percent_encoded_def escape_other)
    qed
  qed
qed


lemma forEach_file_well_formed:
  "list_all well_formed fs \<Longrightarrow>
   forEach_file fs html = Inr (html @ concat (map item_of fs))"
  by (induction fs arbitrary: html) (simp_all add: encodeURI_well_formed item_of_def)























lemmas encode_defs = uri_defs is_leading_surrogate_def is_trailing_surrogate_def
  surrogate_pair_to_code_point_def utf8_def percent_def percent_octets_def hexDigits_def



text \<open>
  C4: the working directory holds the one file \<open>a?b#c.txt\<close>. The \<open>href\<close> of its list
  item is \<open>a?b#c.txt\<close>, with the question mark and the hash sign as they are, where the
  form with the reserved characters encoded is \<open>a%3Fb%23c.txt\<close>; the text of the link is
  the path unchanged.
\<close>

theorem href_keeps_reserved:
  \<open>files [(ascii ''a?b#c.txt'', File [])] = [ascii ''a?b#c.txt'']
   \<and> render (files [(ascii ''a?b#c.txt'', File [])])
       = Inr (html_head @ ascii ''    <li><a href="a?b#c.txt">a?b#c.txt</a></li>\<newline>'' @ html_foot)
   \<and> href_reserved_encoded (ascii ''a?b#c.txt'') = ascii ''a%3Fb%23c.txt''
   \<and> href_reserved_encoded (ascii ''sub/notes 1.txt'') = ascii ''sub/notes%201.txt''\<close>
  by (simp add: files_def array_sort_def eval_defs render_def list_item_def encode_defs
        href_reserved_encoded_def kept_as_path_def code_points.simps)

section \<open>The writer\<close>

lemma writeFileSync_Inr:
  "writeFileSync root p data = Inr root' \<Longrightarrow> map_of root' = (map_of root)(p \<mapsto> File data)"
proof (induction root arbitrary: root')
  case Nil
  then show ?case by auto
next
  case (Cons entry rest)
  obtain name n where e: "entry = (name, n)" by (cases entry)
  show ?case
  proof (cases "name = p")
    case True
    with Cons.prems e show ?thesis by (auto split: node.splits)
  next
    case False
    with Cons.prems e obtain rest' where r: "writeFileSync rest p data = Inr rest'"
        and root': "root' = (name, n) # rest'"
      by (auto split: sum.splits)
    from Cons.IH [OF r] False root' e show ?thesis by auto
  qed
qed

lemma writeFileSync_succeeds:
  "map_of root p = None \<or> (\<exists>c. map_of root p = Some (File c)) \<Longrightarrow>
   \<exists>root'. writeFileSync root p data = Inr root'"
proof (induction root)
  case Nil
  then show ?case by simp
next
  case (Cons entry rest)
  obtain name n where e: "entry = (name, n)" by (cases entry)
  show ?case
  proof (cases "name = p")
    case True
    with Cons.prems e show ?thesis by (auto split: node.splits)
  next
    case False
    with Cons.prems e have "map_of rest p = None \<or> (\<exists>c. map_of rest p = Some (File c))" by simp
    from Cons.IH [OF this] False e show ?thesis by auto
  qed
qed

lemma walk_writeFileSync:
  "writeFileSync root p data = Inr root' \<Longrightarrow> \<not> regex_test p \<Longrightarrow>
   walk dir root' acc = walk dir root acc"
proof (induction root arbitrary: root' acc)
  case Nil
  then show ?case by (auto simp: Let_def)
next
  case (Cons entry rest)
  obtain name n where e: "entry = (name, n)" by (cases entry)
  show ?case
  proof (cases "name = p")
    case True
    with Cons.prems e show ?thesis by (auto split: node.splits simp: Let_def)
  next
    case False
    with Cons.prems e obtain rest' where r: "writeFileSync rest p data = Inr rest'"
        and root': "root' = (name, n) # rest'"
      by (auto split: sum.splits)
    have "\<And>acc. walk dir rest' acc = walk dir rest acc"
      using Cons.IH [OF r Cons.prems(2)] .
    with root' e show ?thesis by (simp add: Let_def split: node.splits)
  qed
qed

lemma outputPath_not_matched: "\<not> regex_test outputPath"
  by (simp add: outputPath_def eval_defs)

text \<open>
  C5: when \<open>index.html\<close> is there and its text is the rendered document, no call of
  \<open>writeFileSync\<close> is made, the working directory stays as it is, and the console says
  that nothing changed; when there is no such file, or its text is another, the whole
  document is written to it.
\<close>

theorem write_only_if_changed:
  assumes "render (files root) = Inr html"
  shows "(map_of root outputPath = Some (File html) \<longrightarrow>
            generate_index root =
              Inr \<lparr>tree = root, writes = [],
                   console = [NoChange, CurrentCount (length (files root))]\<rparr>)
       \<and> (map_of root outputPath = None
            \<or> (\<exists>existing. map_of root outputPath = Some (File existing) \<and> existing \<noteq> html) \<longrightarrow>
            (\<exists>root'. writeFileSync root outputPath html = Inr root'
               \<and> map_of root' = (map_of root)(outputPath \<mapsto> File html)
               \<and> generate_index root =
                   Inr \<lparr>tree = root', writes = [(outputPath, html)],
                        console = [Updated (length (files root))]\<rparr>))"
proof (intro conjI impI)
  assume "map_of root outputPath = Some (File html)"
  with assms show "generate_index root =
      Inr \<lparr>tree = root, writes = [], console = [NoChange, CurrentCount (length (files root))]\<rparr>"
    by (simp add: generate_index_def check_existing_def)
next
  assume a: "map_of root outputPath = None
    \<or> (\<exists>existing. map_of root outputPath = Some (File existing) \<and> existing \<noteq> html)"
  then have "map_of root outputPath = None \<or> (\<exists>c. map_of root outputPath = Some (File c))"
    by blast
  then obtain root' where w: "writeFileSync root outputPath html = Inr root'"
    using writeFileSync_succeeds by blast
  from a have c: "check_existing root html = Inr (True, [])"
    by (auto simp: check_existing_def)
  from assms w c have "generate_index root =
      Inr \<lparr>tree = root', writes = [(outputPath, html)], console = [Updated (length (files root))]\<rparr>"
    by (simp add: generate_index_def)
  with w writeFileSync_Inr [OF w]
  show "\<exists>root'. writeFileSync root outputPath html = Inr root'
               \<and> map_of root' = (map_of root)(outputPath \<mapsto> File html)
               \<and> generate_index root =
                   Inr \<lparr>tree = root', writes = [(outputPath, html)],
                        console = [Updated (length (files root))]\<rparr>"
    by blast
qed


lemma render_ends: "render fs = Inr data \<Longrightarrow> \<exists>body. data = body @ ascii ''</html>''"
  by (auto simp: render_def html_foot_def split: sum.splits)

lemma generate_index_cases:
  assumes "generate_index root = Inr out"
  obtains html where "render (files root) = Inr html" "map_of root outputPath = Some (File html)"
      "out = \<lparr>tree = root, writes = [], console = [NoChange, CurrentCount (length (files root))]\<rparr>"
  | html root' where "render (files root) = Inr html" "map_of root outputPath \<noteq> Some (File html)"
      "writeFileSync root outputPath html = Inr root'"
      "out = \<lparr>tree = root', writes = [(outputPath, html)], console = [Updated (length (files root))]\<rparr>"
  using assms
  by (auto simp: generate_index_def check_existing_def Let_def
           split: sum.splits option.splits node.splits if_splits)

text \<open>
  C7: a run that ends makes at most one call of \<open>writeFileSync\<close>; the call is for
  \<open>index.html\<close>, its data is the rendered document, which ends with \<open></html>\<close> and no
  line break, and afterwards the file holds just that; nothing else in the working
  directory changes. (A run that stops with an error has stopped before any write.)
\<close>

theorem at_most_one_write:
  assumes "generate_index root = Inr out"
  shows "length (writes out) \<le> 1
       \<and> (\<forall>(p, data) \<in> set (writes out).
            p = ascii ''index.html'' \<and> render (files root) = Inr data
            \<and> map_of (tree out) = (map_of root)(p \<mapsto> File data)
            \<and> (\<exists>body. data = body @ ascii ''</html>''))
       \<and> (writes out = [] \<longrightarrow> tree out = root)"
  using assms
proof (cases rule: generate_index_cases)
  case (1 html)
  then show ?thesis by simp
next
  case (2 html root')
  with writeFileSync_Inr [OF 2(3)] render_ends [OF 2(1)] show ?thesis
    by (simp add: outputPath_def)
qed


lemma slash_in_join: "0x2F \<in> set (join_segments (s # t # ss))"
  by (simp add: ascii_def)

lemma replace_backslashes_slash: "0x2F \<in> set s \<Longrightarrow> 0x2F \<in> set (replace_backslashes s)"
  by (auto simp: replace_backslashes_def)

lemma replace_backslashes_id:
  "replace_backslashes s = t \<Longrightarrow> 0x2F \<notin> set t \<Longrightarrow> s = t"
proof (induction s arbitrary: t)
  case Nil
  then show ?case by (simp add: replace_backslashes_def)
next
  case (Cons c cs)
  then obtain d ds where t: "t = d # ds" by (auto simp: replace_backslashes_def)
  with Cons.prems have "replace_backslashes cs = ds" "0x2F \<notin> set ds"
      and d: "(if c = 0x5C then 0x2F else c) = d" "d \<noteq> 0x2F"
    by (auto simp: replace_backslashes_def)
  from Cons.IH [OF this(1,2)] d t show ?case by (auto split: if_splits)
qed

lemma all_files_nonempty: "segs \<in> set (all_files pre items) \<Longrightarrow> segs \<noteq> []"
  by (induction pre items rule: all_files.induct) auto

lemma outputPath_no_slash: "0x2F \<notin> set outputPath"
  by (simp add: outputPath_def ascii_def)

lemma relative_path_not_outputPath:
  assumes "segs \<noteq> []" "included segs"
  shows "relative_path segs \<noteq> outputPath"
proof
  assume eq: "relative_path segs = outputPath"
  show False
  proof (cases segs rule: join_segments.cases)
    case 1
    with assms show False by simp
  next
    case (2 s)
    with eq have "replace_backslashes s = outputPath" by (simp add: relative_path_def)
    then have "s = outputPath" using outputPath_no_slash by (rule replace_backslashes_id)
    with 2 assms(2) have "whitelisted outputPath" by (simp add: included_def)
    then show False using outputPath_not_matched by (simp add: regex_test_iff_whitelisted)
  next
    case (3 s t ss)
    then have "0x2F \<in> set (relative_path segs)"
      unfolding relative_path_def using slash_in_join replace_backslashes_slash by blast
    with eq outputPath_no_slash show False by simp
  qed
qed

lemma outputPath_not_walked: "outputPath \<notin> set (walk (ascii ''.'') root [])"
proof
  assume "outputPath \<in> set (walk (ascii ''.'') root [])"
  then have "outputPath \<in> set (map relative_path (filter included (all_files [] root)))"
    using walk_characterised [of "[]" root "[]"] by (simp add: dir_of_def visible_def)
  then obtain segs where "segs \<in> set (all_files [] root)" "included segs"
      "relative_path segs = outputPath"
    by auto
  with all_files_nonempty relative_path_not_outputPath show False by blast
qed

lemma set_array_sort: "set (array_sort xs) = set xs"
  by (simp add: array_sort_sort)

text \<open>
  C10: \<open>index.html\<close> does not match the pattern of extensions and is never among the
  collected paths; after a run that ended, the paths and the document are the same as
  before, and a second run writes nothing and reports no change.
\<close>

theorem never_indexes_itself:
  "\<not> regex_test outputPath
   \<and> outputPath \<notin> set (walk (ascii ''.'') root [])
   \<and> outputPath \<notin> set (files root)
   \<and> (\<forall>out. generate_index root = Inr out \<longrightarrow>
         files (tree out) = files root
         \<and> render (files (tree out)) = render (files root)
         \<and> generate_index (tree out) =
             Inr \<lparr>tree = tree out, writes = [],
                  console = [NoChange, CurrentCount (length (files root))]\<rparr>)"
proof (intro conjI allI impI)
  show "\<not> regex_test outputPath" by (rule outputPath_not_matched)
  show "outputPath \<notin> set (walk (ascii ''.'') root [])" by (rule outputPath_not_walked)
  then show "outputPath \<notin> set (files root)" by (simp add: files_def set_array_sort)
next
  fix out
  assume g: "generate_index root = Inr out"
  then have f: "files (tree out) = files root"
  proof (cases rule: generate_index_cases)
    case (1 html)
    then show ?thesis by simp
  next
    case (2 html root')
    with walk_writeFileSync [OF 2(3) outputPath_not_matched] show ?thesis
      by (simp add: files_def)
  qed
  then show "files (tree out) = files root" .
  from f show "render (files (tree out)) = render (files root)" by simp
  from g show "generate_index (tree out) =
      Inr \<lparr>tree = tree out, writes = [], console = [NoChange, CurrentCount (length (files root))]\<rparr>"
  proof (cases rule: generate_index_cases)
    case (1 html)
    then show ?thesis by (simp add: generate_index_def check_existing_def)
  next
    case (2 html root')
    from writeFileSync_Inr [OF 2(3)] have "map_of root' outputPath = Some (File html)" by simp
    with 2 f show ?thesis by (simp add: generate_index_def check_existing_def)
  qed
qed


lemmas run_defs = generate_index_def check_existing_def outputPath_def files_def array_sort_def
  render_def list_item_def example_document_def

lemma render_example: "render (files [(ascii ''a.md'', File [])]) = Inr example_document"
  by (simp add: run_defs eval_defs encode_defs)

lemma render_example_indexed:
  "render (files [(ascii ''a.md'', File []), (ascii ''index.html'', File example_document)])
     = Inr example_document"
  by (simp add: run_defs eval_defs encode_defs)

lemma render_example_stale:
  "render (files [(ascii ''index.html'', File []), (ascii ''a.md'', File [])]) = Inr example_document"
  by (simp add: run_defs eval_defs encode_defs)

lemma example_document_not_empty: "example_document \<noteq> []"
  by (simp add: example_document_def html_foot_def ascii_def)

theorem write_only_if_changed_witness:
  "generate_index [(ascii ''a.md'', File []), (ascii ''index.html'', File example_document)]
     = Inr \<lparr>tree = [(ascii ''a.md'', File []), (ascii ''index.html'', File example_document)],
            writes = [], console = [NoChange, CurrentCount 1]\<rparr>
   \<and> generate_index [(ascii ''a.md'', File [])]
     = Inr \<lparr>tree = [(ascii ''a.md'', File []), (ascii ''index.html'', File example_document)],
            writes = [(ascii ''index.html'', example_document)], console = [Updated 1]\<rparr>
   \<and> generate_index [(ascii ''index.html'', File []), (ascii ''a.md'', File [])]
     = Inr \<lparr>tree = [(ascii ''index.html'', File example_document), (ascii ''a.md'', File [])],
            writes = [(ascii ''index.html'', example_document)], console = [Updated 1]\<rparr>"
proof -
  have l: "length (files [(ascii ''a.md'', File [])]) = 1"
      "length (files [(ascii ''a.md'', File []), (ascii ''index.html'', File example_document)]) = 1"
      "length (files [(ascii ''index.html'', File []), (ascii ''a.md'', File [])]) = 1"
    by (simp_all add: files_def array_sort_def eval_defs)
  have ne: "ascii ''a.md'' \<noteq> ascii ''index.html''" by (simp add: ascii_def)
  from write_only_if_changed [OF render_example_indexed] l ne
  have 1: "generate_index [(ascii ''a.md'', File []), (ascii ''index.html'', File example_document)]
     = Inr \<lparr>tree = [(ascii ''a.md'', File []), (ascii ''index.html'', File example_document)],
            writes = [], console = [NoChange, CurrentCount 1]\<rparr>"
    by (simp add: outputPath_def)
  from write_only_if_changed [OF render_example] l ne
  have 2: "generate_index [(ascii ''a.md'', File [])]
     = Inr \<lparr>tree = [(ascii ''a.md'', File []), (ascii ''index.html'', File example_document)],
            writes = [(ascii ''index.html'', example_document)], console = [Updated 1]\<rparr>"
    by (simp add: outputPath_def)
  from write_only_if_changed [OF render_example_stale] l ne example_document_not_empty
  have 3: "generate_index [(ascii ''index.html'', File []), (ascii ''a.md'', File [])]
     = Inr \<lparr>tree = [(ascii ''index.html'', File example_document), (ascii ''a.md'', File [])],
            writes = [(ascii ''index.html'', example_document)], console = [Updated 1]\<rparr>"
    by (auto simp: outputPath_def)
  from 1 2 3 show ?thesis by simp
qed

lemma generate_example:
  "generate_index [(ascii ''a.md'', File [])]
     = Inr \<lparr>tree = [(ascii ''a.md'', File []), (ascii ''index.html'', File example_document)],
            writes = [(ascii ''index.html'', example_document)], console = [Updated 1]\<rparr>"
  by (simp add: run_defs eval_defs encode_defs)

theorem at_most_one_write_witness:
  "generate_index [(ascii ''a.md'', File [])]
     = Inr \<lparr>tree = [(ascii ''a.md'', File []), (ascii ''index.html'', File example_document)],
            writes = [(ascii ''index.html'', example_document)], console = [Updated 1]\<rparr>
   \<and> render (files [(ascii ''a.md'', File [])]) = Inr example_document
   \<and> (\<exists>body. example_document = body @ ascii ''</html>'')"
  using at_most_one_write [OF generate_example] generate_example by simp

theorem never_indexes_itself_witness:
  "generate_index [(ascii ''a.md'', File [])]
     = Inr \<lparr>tree = [(ascii ''a.md'', File []), (ascii ''index.html'', File example_document)],
            writes = [(ascii ''index.html'', example_document)], console = [Updated 1]\<rparr>
   \<and> files [(ascii ''a.md'', File []), (ascii ''index.html'', File example_document)] = [ascii ''a.md'']
   \<and> generate_index [(ascii ''a.md'', File []), (ascii ''index.html'', File example_document)]
     = Inr \<lparr>tree = [(ascii ''a.md'', File []), (ascii ''index.html'', File example_document)],
            writes = [], console = [NoChange, CurrentCount 1]\<rparr>"
proof -
  have f: "files [(ascii ''a.md'', File [])] = [ascii ''a.md'']"
    by (simp add: files_def array_sort_def eval_defs)
  from never_indexes_itself [of "[(ascii ''a.md'', File [])]"] generate_example f
  show ?thesis by simp
qed

section \<open>Hidden entries\<close>

lemma walk_prune: "walk dir (prune items) acc = walk dir items acc"
  by (induction items arbitrary: dir acc rule: prune.induct) (simp_all add: Let_def)

lemma all_files_not_visible:
  assumes "\<not> visible pre"
  shows "filter visible (all_files pre items) = []"
proof -
  have "\<not> visible segs" if "segs \<in> set (all_files pre items)" for segs
  proof -
    from that obtain rest where "segs = pre @ rest" using all_files_prefix by blast
    with assms show ?thesis by (simp add: visible_def)
  qed
  then show ?thesis by (simp add: filter_empty_conv)
qed

lemma all_files_prune:
  "visible pre \<Longrightarrow> all_files pre (prune items) = filter visible (all_files pre items)"
proof (induction items arbitrary: pre rule: prune.induct)
  case 1
  then show ?case by simp
next
  case (2 name c rest)
  then show ?case by (simp add: visible_def)
next
  case (3 name sub rest)
  show ?case
  proof (cases "startsWith_dot name")
    case True
    then have "\<not> visible (pre @ [name])" by (simp add: visible_def)
    then have "filter visible (all_files (pre @ [name]) sub) = []" by (rule all_files_not_visible)
    with True "3.IH"(1) [OF True "3.prems"] show ?thesis by simp
  next
    case False
    with "3.prems" have v: "visible (pre @ [name])" by (simp add: visible_def)
    from False "3.IH"(2) [OF False v] "3.IH"(3) [OF False "3.prems"] show ?thesis by simp
  qed
qed

text \<open>
  The hidden entries themselves count for nothing: a tree without them holds exactly the
  files with no name starting with a dot on their way; every collected path is the path of
  such a file; and two trees that are the same but for their hidden entries give the same
  collected list, the same sorted list and the same document.
\<close>

lemma hidden_entries_without_effect:
  "all_files [] (prune a) = filter visible (all_files [] a)
   \<and> set (files a) \<subseteq> relative_path ` {segs \<in> set (all_files [] a). visible segs}
   \<and> (prune a = prune b \<longrightarrow>
        walk (ascii ''.'') a [] = walk (ascii ''.'') b []
        \<and> files a = files b \<and> render (files a) = render (files b))"
proof (intro conjI impI)
  show "all_files [] (prune a) = filter visible (all_files [] a)"
    by (rule all_files_prune) (simp add: visible_def)
  have "walk (ascii ''.'') a [] = map relative_path (filter included (all_files [] a))"
    using walk_characterised [of "[]" a "[]"] by (simp add: dir_of_def visible_def)
  then show "set (files a) \<subseteq> relative_path ` {segs \<in> set (all_files [] a). visible segs}"
    by (auto simp: files_def set_array_sort included_def)
next
  assume "prune a = prune b"
  then have "walk (ascii ''.'') (prune a) [] = walk (ascii ''.'') (prune b) []" by simp
  then show w: "walk (ascii ''.'') a [] = walk (ascii ''.'') b []" by (simp only: walk_prune)
  then show f: "files a = files b" by (simp add: files_def)
  then show "render (files a) = render (files b)" by simp
qed


text \<open>
  C2: in the working directory \<open>aliased_example\<close> the file \<open>a/.git/config.txt\<close> lies in a
  directory whose name starts with a dot, and its path is in the collected list and in the
  document all the same: the file \<open>a\.git\config.txt\<close> beside the directory \<open>a\<close> is not
  hidden, has a listed extension, and has the backslashes of its name replaced by slashes.
\<close>

theorem hidden_path_listed:
  \<open>[ascii ''a'', ascii ''.git'', ascii ''config.txt''] \<in> set (all_files [] aliased_example)
   \<and> \<not> visible [ascii ''a'', ascii ''.git'', ascii ''config.txt'']
   \<and> join_segments [ascii ''a'', ascii ''.git'', ascii ''config.txt''] = ascii ''a/.git/config.txt''
   \<and> files aliased_example = [ascii ''a/.git/config.txt'']
   \<and> render (files aliased_example)
       = Inr (html_head @
              ascii ''    <li><a href="a/.git/config.txt">a/.git/config.txt</a></li>\<newline>'' @
              html_foot)\<close>
  by (simp add: aliased_example_def visible_def files_def array_sort_def eval_defs
        render_def list_item_def encode_defs)

section \<open>The order of the listings\<close>

lemma walk_acc: "walk dir items acc = acc @ walk dir items []"
proof (induction items arbitrary: dir acc rule: plain.induct)
  case 1
  then show ?case by simp
next
  case (2 name c rest)
  let ?p = "replace_backslashes (path_relative_cwd (path_join dir name))"
  from "2.IH" [of dir "acc @ [?p]"] "2.IH" [of dir "[?p]"] "2.IH" [of dir acc]
  show ?case by (simp add: Let_def)
next
  case (3 name sub rest)
  let ?d = "path_join dir name"
  from "3.IH"(1) [of ?d acc] "3.IH"(2) [of dir "walk ?d sub acc"]
       "3.IH"(2) [of dir "walk ?d sub []"] "3.IH"(2) [of dir acc]
  show ?case by (simp add: Let_def)
qed

lemma walk_append: "walk dir (xs @ ys) acc = walk dir ys (walk dir xs acc)"
  by (induction xs arbitrary: acc rule: plain.induct) (simp_all add: Let_def)

lemma collected_append: "collected dir (xs @ ys) = collected dir xs + collected dir ys"
  unfolding collected_def walk_append using walk_acc [of dir ys "walk dir xs []"] by simp

lemma collected_Cons: "collected dir (x # xs) = collected dir [x] + collected dir xs"
  using collected_append [of dir "[x]" xs] by simp

lemma same_collected:
  "(same_node a b \<longrightarrow> (\<forall>dir name. collected dir [(name, a)] = collected dir [(name, b)]))
   \<and> (same_listing xs ys \<longrightarrow> (\<forall>dir. collected dir xs = collected dir ys))"
proof (induction rule: same_node_same_listing.induct)
  case (same_File c c')
  then show ?case by (simp add: collected_def Let_def)
next
  case (same_Directory xs ys)
  then show ?case by (simp add: collected_def Let_def)
next
  case same_Nil
  then show ?case by simp
next
  case (same_Cons a b xs ys1 ys2 name)
  show ?case
  proof (intro allI)
    fix dir
    have "collected dir ((name, a) # xs) = collected dir [(name, a)] + collected dir xs"
      by (rule collected_Cons)
    also have "\<dots> = collected dir [(name, b)] + collected dir (ys1 @ ys2)"
      using same_Cons.IH by simp
    also have "\<dots> = collected dir (ys1 @ (name, b) # ys2)"
      using collected_Cons [of dir "(name, b)" ys2] by (simp add: collected_append)
    finally show "collected dir ((name, a) # xs) = collected dir (ys1 @ (name, b) # ys2)" .
  qed
qed

lemma same_listing_refl: "same_listing xs xs"
proof (induction xs rule: plain.induct)
  case 1
  show ?case by (rule same_Nil)
next
  case (2 name c rest)
  from same_Cons [OF same_File [of c c], of rest "[]" rest name] 2 show ?case by simp
next
  case (3 name sub rest)
  from same_Cons [OF same_Directory [OF "3.IH"(1)], of rest "[]" rest name] "3.IH"(2)
  show ?case by simp
qed

text \<open>
  C6: the sorted paths and the document depend on the entries of the tree only. A tree
  has the same entries as itself, and two trees with the same entries, in whatever order
  \<open>readdirSync\<close> lists them and whatever the files hold, give the same paths and the
  same document (or the same error). The script reads no clock.
\<close>

theorem document_determined:
  "same_listing a a
   \<and> (same_listing a b \<longrightarrow> files a = files b \<and> render (files a) = render (files b))"
proof (intro conjI impI)
  show "same_listing a a" by (rule same_listing_refl)
next
  assume "same_listing a b"
  then have "collected (ascii ''.'') a = collected (ascii ''.'') b"
    using same_collected by blast
  then show f: "files a = files b"
    unfolding files_def collected_def by (rule array_sort_mset_cong)
  then show "render (files a) = render (files b)" by simp
qed



theorem document_determined_witness:
  "same_listing
     [(ascii ''b.txt'', File []),
      (ascii ''sub'', Directory [(ascii ''x.md'', File []), (ascii ''y.md'', File [])])]
     [(ascii ''sub'', Directory [(ascii ''y.md'', File (ascii ''new'')), (ascii ''x.md'', File [])]),
      (ascii ''b.txt'', File [])]
   \<and> files [(ascii ''b.txt'', File []),
        (ascii ''sub'', Directory [(ascii ''x.md'', File []), (ascii ''y.md'', File [])])]
       = [ascii ''b.txt'', ascii ''sub/x.md'', ascii ''sub/y.md'']
   \<and> files [(ascii ''sub'', Directory [(ascii ''y.md'', File (ascii ''new'')), (ascii ''x.md'', File [])]),
        (ascii ''b.txt'', File [])]
       = [ascii ''b.txt'', ascii ''sub/x.md'', ascii ''sub/y.md'']"
proof -
  let ?x = "ascii ''x.md''" and ?y = "ascii ''y.md''" and ?b = "ascii ''b.txt''"
  let ?s = "ascii ''sub''"
  let ?A = "[(?b, File []), (?s, Directory [(?x, File []), (?y, File [])])]"
  let ?B = "[(?s, Directory [(?y, File (ascii ''new'')), (?x, File [])]), (?b, File [])]"
  have 1: "same_listing [(?y, File [])] [(?y, File (ascii ''new''))]"
    using same_Cons [OF same_File [of "[]" "ascii ''new''"], of "[]" "[]" "[]" ?y] same_Nil by simp
  have 2: "same_listing [(?x, File []), (?y, File [])] [(?y, File (ascii ''new'')), (?x, File [])]"
    using same_Cons [OF same_File [of "[]" "[]"], of "[(?y, File [])]"
        "[(?y, File (ascii ''new''))]" "[]" ?x] 1
    by simp
  have 3: "same_listing [(?s, Directory [(?x, File []), (?y, File [])])]
      [(?s, Directory [(?y, File (ascii ''new'')), (?x, File [])])]"
    using same_Cons [OF same_Directory [OF 2], of "[]" "[]" "[]" ?s] same_Nil by simp
  have 4: "same_listing ?A ?B"
    using same_Cons [OF same_File [of "[]" "[]"],
        of "[(?s, Directory [(?x, File []), (?y, File [])])]"
           "[(?s, Directory [(?y, File (ascii ''new'')), (?x, File [])])]" "[]" ?b] 3
    by simp
  have f: "files ?A = [?b, ascii ''sub/x.md'', ascii ''sub/y.md'']"
    by (simp add: files_def array_sort_def eval_defs)
  from document_determined [of ?A ?B] 4 f show ?thesis by simp
qed

section \<open>The two scripts\<close>

lemma join_no_backslash:
  "list_all (\<lambda>s. 0x5C \<notin> set s) segs \<Longrightarrow> 0x5C \<notin> set (join_segments segs)"
  by (induction segs rule: join_segments.induct) (simp_all add: ascii_def)

lemma replace_backslashes_none: "0x5C \<notin> set s \<Longrightarrow> replace_backslashes s = s"
  by (induction s) (simp_all add: replace_backslashes_def)

lemma join_not_dotted:
  "segs \<noteq> [] \<Longrightarrow> \<not> startsWith_dot (hd segs) \<Longrightarrow> \<not> startsWith_dot (join_segments segs)"
  by (cases segs rule: join_segments.cases)
     (auto simp: startsWith_dot_def ascii_def split: list.splits)

lemma strip_dot_slash_id: "\<not> startsWith_dot p \<Longrightarrow> strip_dot_slash p = p"
  by (auto simp: startsWith_dot_def strip_dot_slash_def split: list.splits)

lemma plain_path:
  assumes "list_all plain_name pre" "plain_name name"
  shows "replace_backslashes (join_segments (pre @ [name])) = join_segments (pre @ [name])"
    and "strip_dot_slash (join_segments (pre @ [name])) = join_segments (pre @ [name])"
proof -
  from assms have "list_all (\<lambda>s. 0x5C \<notin> set s) (pre @ [name])"
    by (auto simp: plain_name_def list_all_iff)
  then show "replace_backslashes (join_segments (pre @ [name])) = join_segments (pre @ [name])"
    by (intro replace_backslashes_none join_no_backslash)
  from assms have "\<not> startsWith_dot (hd (pre @ [name]))"
    by (cases pre) (simp_all add: plain_name_def)
  then have "\<not> startsWith_dot (join_segments (pre @ [name]))"
    by (intro join_not_dotted) simp_all
  then show "strip_dot_slash (join_segments (pre @ [name])) = join_segments (pre @ [name])"
    by (rule strip_dot_slash_id)
qed

lemma plain_visible: "list_all plain_name pre \<Longrightarrow> visible pre"
  by (simp add: visible_def plain_name_def list_all_iff)

lemma walk_none:
  "list_all (\<lambda>segs. \<not> whitelisted (last segs)) (all_files pre items) \<Longrightarrow>
   walk dir items acc = acc"
  by (induction pre items arbitrary: dir acc rule: all_files.induct)
     (simp_all add: Let_def regex_test_iff_whitelisted)

lemma walk_ts_none:
  "list_all (\<lambda>segs. \<not> whitelisted (last segs)) (all_files pre items) \<Longrightarrow>
   walk_ts dir items acc = acc"
  by (induction pre items arbitrary: dir acc rule: all_files.induct)
     (simp_all add: Let_def regex_test_iff_whitelisted)

lemma walk_ts_listed_plain:
  "list_all listed_plain (all_files pre items) \<Longrightarrow>
   walk_ts (dir_of pre) items acc = walk (dir_of pre) items acc"
proof (induction pre items arbitrary: acc rule: all_files.induct)
  case (1 pre)
  then show ?case by simp
next
  case (2 pre name c rest)
  then have r: "list_all listed_plain (all_files pre rest)"
      and "listed_plain (pre @ [name])"
    by simp_all
  then have n: "\<not> whitelisted name \<or> list_all plain_name (pre @ [name])"
    by (simp add: listed_plain_def)
  show ?case
  proof (cases "whitelisted name")
    case False
    with "2.IH" [OF r] show ?thesis by (simp add: Let_def regex_test_iff_whitelisted)
  next
    case True
    with n have p: "list_all plain_name pre" and pn: "plain_name name" by simp_all
    have j: "path_join (dir_of pre) name = join_segments (pre @ [name])"
      using path_join_dir_of [OF plain_visible [OF p], of name] by (simp add: dir_of_def)
    from pn have nd: "\<not> startsWith_dot name" by (simp add: plain_name_def)
    show ?thesis
      using "2.IH" [OF r] plain_path [OF p pn] nd j True
      by (simp add: Let_def path_relative_cwd_def regex_test_iff_whitelisted)
  qed
next
  case (3 pre name sub rest)
  then have s: "list_all listed_plain (all_files (pre @ [name]) sub)"
      and r: "list_all listed_plain (all_files pre rest)"
    by simp_all
  show ?case
  proof (cases "list_all (\<lambda>segs. \<not> whitelisted (last segs)) (all_files (pre @ [name]) sub)")
    case True
    from walk_ts_none [OF True] walk_none [OF True] "3.IH"(2) [OF r]
    show ?thesis by (simp add: Let_def)
  next
    case False
    then obtain segs where m: "segs \<in> set (all_files (pre @ [name]) sub)" and w: "whitelisted (last segs)"
      by (auto simp: list_all_iff)
    from s m w have ps: "list_all plain_name segs"
      by (auto simp: listed_plain_def list_all_iff)
    from m obtain more where "segs = (pre @ [name]) @ more" using all_files_prefix by blast
    with ps have p: "list_all plain_name pre" and pn: "plain_name name" by simp_all
    from pn have nd: "\<not> startsWith_dot name" by (simp add: plain_name_def)
    have j: "path_join (dir_of pre) name = dir_of (pre @ [name])"
      by (rule path_join_dir_of [OF plain_visible [OF p]])
    have "walk_ts (dir_of pre) ((name, Directory sub) # rest) acc
        = walk_ts (dir_of pre) rest (acc @ walk_ts (dir_of (pre @ [name])) sub [])"
      by (simp add: Let_def j)
    also have "\<dots> = walk (dir_of pre) rest (acc @ walk (dir_of (pre @ [name])) sub [])"
      using "3.IH"(1) [OF s] "3.IH"(2) [OF r] by simp
    also have "\<dots> = walk (dir_of pre) rest (walk (dir_of (pre @ [name])) sub acc)"
      using walk_acc [of "dir_of (pre @ [name])" sub acc] by simp
    also have "\<dots> = walk (dir_of pre) ((name, Directory sub) # rest) acc"
      using nd by (simp add: Let_def j)
    finally show ?thesis .
  qed
qed

lemma files_ts_listed_plain: "listed_files_plain root \<Longrightarrow> files_ts root = files root"
  using walk_ts_listed_plain [of "[]" root "[]"]
  by (simp add: listed_files_plain_def files_ts_def files_def dir_of_def)

text \<open>A plain tree is one of those.\<close>

lemma plain_listed:
  "plain items \<Longrightarrow> list_all plain_name pre \<Longrightarrow> list_all listed_plain (all_files pre items)"
  by (induction pre items rule: all_files.induct) (simp_all add: listed_plain_def)

text \<open>
  C8, as the code has it: on a tree in which every file with a listed extension has only
  names on its way, its own included, that neither start with a dot nor hold a backslash,
  the two scripts collect the same paths, and their documents are the same up to the
  opening of the footer paragraph and after it; between, the one has its note and the
  other the time of the run.
\<close>

theorem scripts_differ_in_footer:
  assumes "listed_files_plain root"
  shows \<open>files_ts root = files root
     \<and> ((\<exists>e. render (files root) = Inl e \<and> render_ts now (files_ts root) = Inl e)
        \<or> (\<exists>body. render (files root) =
                Inr (body @ ascii ''  <p><small>'' @
                     [0x6587, 0x4EF6, 0x5217, 0x8868, 0x7531, 0x81EA, 0x52A8, 0x5316, 0x811A, 0x672C,
                      0x751F, 0x6210] @
                     ascii ''</small></p>\<newline></body>\<newline></html>'')
              \<and> render_ts now (files_ts root) =
                Inr (body @ ascii ''  <p><small>'' @
                     [0x66F4, 0x65B0, 0x65F6, 0x95F4] @ ascii '': '' @ now @
                     ascii ''</small></p>\<newline></body>\<newline></html>'')))\<close>
proof
  show f: "files_ts root = files root" using assms by (rule files_ts_listed_plain)
  show \<open>(\<exists>e. render (files root) = Inl e \<and> render_ts now (files_ts root) = Inl e)
        \<or> (\<exists>body. render (files root) =
                Inr (body @ ascii ''  <p><small>'' @
                     [0x6587, 0x4EF6, 0x5217, 0x8868, 0x7531, 0x81EA, 0x52A8, 0x5316, 0x811A, 0x672C,
                      0x751F, 0x6210] @
                     ascii ''</small></p>\<newline></body>\<newline></html>'')
              \<and> render_ts now (files_ts root) =
                Inr (body @ ascii ''  <p><small>'' @
                     [0x66F4, 0x65B0, 0x65F6, 0x95F4] @ ascii '': '' @ now @
                     ascii ''</small></p>\<newline></body>\<newline></html>''))\<close>
  proof (cases "forEach_file (files root) html_head")
    case (Inl e)
    with f show ?thesis by (simp add: render_def render_ts_def)
  next
    case (Inr html)
    with f have "render (files root) =
                Inr ((html @ ascii ''  </ul>\<newline>'') @ ascii ''  <p><small>'' @
                     [0x6587, 0x4EF6, 0x5217, 0x8868, 0x7531, 0x81EA, 0x52A8, 0x5316, 0x811A, 0x672C,
                      0x751F, 0x6210] @
                     ascii ''</small></p>\<newline></body>\<newline></html>'')
              \<and> render_ts now (files_ts root) =
                Inr ((html @ ascii ''  </ul>\<newline>'') @ ascii ''  <p><small>'' @
                     [0x66F4, 0x65B0, 0x65F6, 0x95F4] @ ascii '': '' @ now @
                     ascii ''</small></p>\<newline></body>\<newline></html>'')"
      by (simp add: render_def render_ts_def html_foot_def html_foot_ts_def ascii_def)
    then show ?thesis by blast
  qed
qed

lemma git_example_listed: "listed_files_plain git_example \<and> \<not> plain git_example"
  by (simp add: git_example_def listed_files_plain_def listed_plain_def plain_name_def
        startsWith_dot_def whitelisted_def extension_def whitelist_def ascii_lower_def ascii_def)

lemma files_git_example: "files git_example = [ascii ''README.md'', ascii ''docs/a.txt'']"
  by (simp add: git_example_def files_def array_sort_def eval_defs)

lemma render_git_example: "\<exists>d. render (files git_example) = Inr d"
proof -
  have "list_all well_formed (files git_example)"
    unfolding files_git_example
    by (simp add: ascii_def is_leading_surrogate_def is_trailing_surrogate_def)
  from forEach_file_well_formed [OF this, of html_head] show ?thesis
    by (simp add: render_def)
qed

text \<open>The tree \<open>git_example\<close> has hidden entries and is one of those trees.\<close>

theorem scripts_differ_in_footer_witness:
  \<open>listed_files_plain git_example \<and> \<not> plain git_example
   \<and> files_ts git_example = [ascii ''README.md'', ascii ''docs/a.txt'']
   \<and> files git_example = [ascii ''README.md'', ascii ''docs/a.txt'']
   \<and> (\<exists>body. render (files git_example) =
                Inr (body @ ascii ''  <p><small>'' @
                     [0x6587, 0x4EF6, 0x5217, 0x8868, 0x7531, 0x81EA, 0x52A8, 0x5316, 0x811A, 0x672C,
                      0x751F, 0x6210] @
                     ascii ''</small></p>\<newline></body>\<newline></html>'')
              \<and> render_ts (ascii ''2024/1/1 08:00:00'') (files_ts git_example) =
                Inr (body @ ascii ''  <p><small>'' @
                     [0x66F4, 0x65B0, 0x65F6, 0x95F4] @ ascii '': '' @ ascii ''2024/1/1 08:00:00'' @
                     ascii ''</small></p>\<newline></body>\<newline></html>''))\<close>
proof -
  from git_example_listed have l: "listed_files_plain git_example" by simp
  from scripts_differ_in_footer [OF l, of "ascii ''2024/1/1 08:00:00''"]
    git_example_listed files_git_example render_git_example
  show ?thesis by auto
qed

text \<open>
  C8 as it is written, for every tree, fails on a hidden directory: the script with the
  time stamp skips nothing, lists \<open>.hidden/secret.txt\<close> and takes the dot off its path;
  the other script lists no file.
\<close>

theorem scripts_differ_in_footer_counterexample:
  \<open>files [(ascii ''.hidden'', Directory [(ascii ''secret.txt'', File [])])] = []
   \<and> files_ts [(ascii ''.hidden'', Directory [(ascii ''secret.txt'', File [])])]
       = [ascii ''hidden/secret.txt'']
   \<and> render (files [(ascii ''.hidden'', Directory [(ascii ''secret.txt'', File [])])])
       = Inr (html_head @ html_foot)
   \<and> render_ts (ascii ''2024/1/1 08:00:00'')
         (files_ts [(ascii ''.hidden'', Directory [(ascii ''secret.txt'', File [])])])
       = Inr (html_head @
              ascii ''    <li><a href="hidden/secret.txt">hidden/secret.txt</a></li>\<newline>'' @
              html_foot_ts (ascii ''2024/1/1 08:00:00''))\<close>
  by (simp add: files_def files_ts_def array_sort_def eval_defs strip_dot_slash_def
        render_def render_ts_def list_item_def encode_defs)

end
